theory Spec2Isabelle
  imports Main
begin

section \<open>The elastic driver of horovod/run/elastic/driver.py\<close>

text \<open>
  The module defines three classes: \<^verbatim>\<open>WorkerStateRegistry\<close>, \<^verbatim>\<open>Results\<close> and
  \<^verbatim>\<open>ElasticDriver\<close>. Each class is a record here and each method a function on
  that record, with the objects a method reaches through references passed explicitly.
  Python integers are \<open>int\<close>, dictionaries are maps, Python sets are sets, exceptions are
  values of the type \<open>error\<close>.
\<close>

subsection \<open>Constants and basic types\<close>

type_synonym host = string

text \<open>A worker key is the pair \<^verbatim>\<open>(host, slot)\<close> built in \<^verbatim>\<open>_record_state\<close>.\<close>

type_synonym key = "host \<times> int"

text \<open>The three state tags \<^verbatim>\<open>READY\<close>, \<^verbatim>\<open>SUCCESS\<close>, \<^verbatim>\<open>FAILURE\<close>.\<close>

datatype wstate = READY | SUCCESS | FAILURE

definition DISCOVER_HOSTS_FREQUENCY_SECS :: int where
  "DISCOVER_HOSTS_FREQUENCY_SECS = 1"


text \<open>
  The exceptions the module raises or lets through. \<open>StateOverridden state saved\<close> is the
  \<^verbatim>\<open>RuntimeError('State {} overridden by {}')\<close> of \<^verbatim>\<open>_wait\<close>; \<open>StartTimeout\<close> is
  the exception of \<^verbatim>\<open>Timeout.check_time_out_for\<close>; \<open>AttributeError\<close> is a method call
  on the \<^verbatim>\<open>None\<close> that \<^verbatim>\<open>_barrier\<close> holds before the first \<^verbatim>\<open>reset\<close>;
  \<open>ValueError\<close> is a failing \<^verbatim>\<open>int(...)\<close>; \<open>InsufficientResources\<close> and
  \<open>TooManyResources\<close> are the failures the spec gives for the assigner.
\<close>

datatype error =
    BrokenBarrierError
  | StateOverridden wstate wstate
  | StartTimeout
  | AttributeError
  | ValueError
  | InsufficientResources
  | TooManyResources

text \<open>
  What a call does: it returns a value, it raises, or it never returns (it stays blocked
  in a wait that nothing ends).
\<close>

datatype 'a outcome = Returns 'a | Raises error | Never

text \<open>
  The calls of the \<^verbatim>\<open>logging\<close> module are effects of the code: each message is an
  event, with the values the message is formatted with, appended to the log.
\<close>

datatype log_event =
    Reset_workers int
  | Driver_finished_ignoring key wstate
  | Key_exists_reset_barrier key wstate
  | Record_state key wstate
  | All_workers_recorded int
  | Success_stop int
  | Failure_stop int
  | Blacklisted_stop int
  | Failed_to_activate
  | Wait_for_available_hosts int
  | Start_worker_processes host
  | Ignoring_exit host int
  | Adding_results host int int int

subsection \<open>threading.Barrier\<close>

text \<open>
  Thread identities are natural numbers. A barrier object of the standard library is
  kept by what the module can observe of it: the number of \<open>parties\<close>, the threads
  blocked in \<^verbatim>\<open>wait()\<close> (in arrival order), the \<^verbatim>\<open>broken\<close> property, and for each
  thread that has been woken but has not run yet how its \<^verbatim>\<open>wait()\<close> ends: it returns
  (\<open>passed\<close>) or raises \<^verbatim>\<open>BrokenBarrierError\<close> (\<open>interrupted\<close>).

  Barrier objects live in a store, a list indexed by reference: \<^verbatim>\<open>reset\<close> of the
  registry replaces the object \<^verbatim>\<open>self._barrier\<close> refers to, while threads that entered
  the old object stay in the old object.
\<close>

type_synonym tid = nat

type_synonym bref = nat

record barrier =
  parties :: int
  waiting :: "tid list"
  broken :: bool
  passed :: "tid set"
  interrupted :: "tid set"

text \<open>\<^verbatim>\<open>threading.Barrier(parties=size, action=...)\<close>: a new, empty barrier.\<close>

definition Barrier :: "int \<Rightarrow> barrier" where
  "Barrier sz =
     \<lparr>parties = sz, waiting = [], broken = False, passed = {}, interrupted = {}\<rparr>"

definition alloc :: "barrier \<Rightarrow> barrier list \<Rightarrow> bref \<times> barrier list" where
  "alloc b h = (length h, h @ [b])"

definition lookup :: "barrier list \<Rightarrow> bref \<Rightarrow> barrier option" where
  "lookup h r = (if r < length h then Some (h ! r) else None)"

text \<open>
  \<^verbatim>\<open>Barrier.reset()\<close>: the barrier returns to the empty state and every thread waiting
  on it receives \<^verbatim>\<open>BrokenBarrierError\<close>; the barrier is not left broken.
\<close>

definition barrier_reset :: "barrier \<Rightarrow> barrier" where
  "barrier_reset b =
     b\<lparr>interrupted := interrupted b \<union> set (waiting b), waiting := [], broken := False\<rparr>"

text \<open>
  \<^verbatim>\<open>Barrier.wait()\<close> as the last party, after the action has run: every waiting thread
  is released.
\<close>

definition barrier_release :: "barrier \<Rightarrow> barrier" where
  "barrier_release b = b\<lparr>passed := passed b \<union> set (waiting b), waiting := []\<rparr>"

subsection \<open>The objects\<close>

text \<open>
  \<^verbatim>\<open>WorkerStateRegistry\<close>: the fields set in \<^verbatim>\<open>__init__\<close>, without the lock, the
  verbosity flag and the reference back to the driver (the methods that follow it take
  the driver's state). \<open>workers\<close> is the \<^verbatim>\<open>defaultdict(set)\<close>: a total function whose
  default is the empty set. \<open>barrier\<close> is \<open>None\<close> until the first \<^verbatim>\<open>reset\<close>. The field
  \<^verbatim>\<open>_size\<close> is \<open>rsize\<close>.
\<close>

record WorkerStateRegistry =
  states :: "key \<rightharpoonup> wstate"
  workers :: "wstate \<Rightarrow> key set"
  barrier :: "bref option"
  rendezvous_id :: int
  rsize :: int

text \<open>
  Modelled from the spec: \<^verbatim>\<open>hosts.SlotInfo\<close> of horovod.run.common.util.hosts, which
  is not among the sources. The spec gives its seven components; the driver reads
  \<^verbatim>\<open>hostname\<close> and \<^verbatim>\<open>local_rank\<close>.
\<close>

record SlotInfo =
  hostname :: host
  local_rank :: int
  local_size :: int
  cross_rank :: int
  cross_size :: int
  slot_rank :: int
  slot_size :: int

text \<open>
  \<^verbatim>\<open>Results\<close>: the dictionary \<^verbatim>\<open>_results\<close> (\<open>entries\<close>) and the queue of worker
  threads, each thread named by the slot it was started for.
\<close>

record Results =
  entries :: "string \<rightharpoonup> (int \<times> int)"
  worker_threads :: "SlotInfo list"

text \<open>
  Modelled from the spec: \<^verbatim>\<open>DiscoveredHosts\<close> of horovod.run.elastic.discovery, which
  is not among the sources. By the spec it tracks the hosts discovery reported last,
  each with its slots, in discovery order, and the sticky set of blacklisted hosts.
\<close>

record DiscoveredHosts =
  available_slots :: "(host \<times> int) list"
  blacklisted_hosts :: "host set"

text \<open>
  \<^verbatim>\<open>ElasticDriver\<close>: the fields set in \<^verbatim>\<open>__init__\<close>. \<open>rendezvous\<close> holds what
  \<^verbatim>\<open>self._rendezvous.httpd.init\<close> received last; \<open>shutdown\<close> is the event's flag. The
  condition variable, the discovery thread, the worker factory and the notification
  clients are left out. Two more components complete the state the methods act on: the
  \<open>store\<close> of barrier objects and the \<open>log\<close> written through \<^verbatim>\<open>logging\<close>.
\<close>

record ElasticDriver =
  rendezvous :: "SlotInfo list"
  discovered_hosts :: DiscoveredHosts
  min_np :: int
  max_np :: "int option"
  assigned_hosts :: "host list"
  host_assignments :: "host \<rightharpoonup> SlotInfo list"
  world_size :: int
  start_timeout :: int
  worker_registry :: WorkerStateRegistry
  results :: Results
  shutdown :: bool
  store :: "barrier list"
  log :: "log_event list"

definition logging :: "log_event \<Rightarrow> ElasticDriver \<Rightarrow> ElasticDriver" where
  "logging e d = d\<lparr>log := log d @ [e]\<rparr>"

subsection \<open>WorkerStateRegistry\<close>

definition WorkerStateRegistry_init :: WorkerStateRegistry where
  "WorkerStateRegistry_init =
     \<lparr>states = Map.empty, workers = (\<lambda>_. {}), barrier = None, rendezvous_id = 0, rsize = 0\<rparr>"

definition get :: "WorkerStateRegistry \<Rightarrow> wstate \<Rightarrow> key set" where
  "get reg state = workers reg state"

definition count :: "WorkerStateRegistry \<Rightarrow> wstate \<Rightarrow> int" where
  "count reg state = int (card (workers reg state))"

text \<open>
  \<^verbatim>\<open>reset(size)\<close>: both maps are cleared, a new barrier object of \<open>size\<close> parties is
  created and installed, the rendezvous id is incremented, the size is stored.
\<close>

definition reset :: "int \<Rightarrow> ElasticDriver \<Rightarrow> ElasticDriver" where
  "reset sz d =
     (let d1 = logging (Reset_workers sz) d;
          reg = worker_registry d1;
          (r, h) = alloc (Barrier sz) (store d1)
      in d1\<lparr>worker_registry :=
               reg\<lparr>states := Map.empty,
                   workers := (\<lambda>_. {}),
                   barrier := Some r,
                   rendezvous_id := rendezvous_id reg + 1,
                   rsize := sz\<rparr>,
             store := h\<rparr>)"

definition size_registry :: "WorkerStateRegistry \<Rightarrow> int" where
  "size_registry reg = rsize reg"

definition last_rendezvous :: "WorkerStateRegistry \<Rightarrow> int" where
  "last_rendezvous reg = rendezvous_id reg"

text \<open>
  The block under the lock in \<^verbatim>\<open>_record_state\<close> (lines 91 to 98): when the key is
  already recorded the barrier is reset, then the state is stored, the key is added to
  the set of that state (it is not removed from the set of its previous state), and the
  rendezvous id is read. A reset of the \<^verbatim>\<open>None\<close> barrier raises inside the block.
\<close>

definition reset_barrier :: "ElasticDriver \<Rightarrow> error + ElasticDriver" where
  "reset_barrier d =
     (case barrier (worker_registry d) of
        None \<Rightarrow> Inl AttributeError
      | Some r \<Rightarrow>
         (case lookup (store d) r of
            None \<Rightarrow> Inl AttributeError
          | Some b \<Rightarrow> Inr (d\<lparr>store := (store d)[r := barrier_reset b]\<rparr>)))"

definition store_state :: "key \<Rightarrow> wstate \<Rightarrow> ElasticDriver \<Rightarrow> int \<times> ElasticDriver" where
  "store_state k state d =
     (let d1 = logging (Record_state k state) d;
          reg = worker_registry d1
      in (rendezvous_id reg,
          d1\<lparr>worker_registry :=
               reg\<lparr>states := (states reg)(k \<mapsto> state),
                   workers := (workers reg)(state := insert k (workers reg state))\<rparr>\<rparr>))"

definition record_state_locked ::
  "key \<Rightarrow> wstate \<Rightarrow> ElasticDriver \<Rightarrow> (error + int) \<times> ElasticDriver" where
  "record_state_locked k state d =
     (if k \<in> dom (states (worker_registry d)) then
        (let d1 = logging (Key_exists_reset_barrier k state) d
         in case reset_barrier d1 of
              Inl e \<Rightarrow> (Inl e, d1)
            | Inr d2 \<Rightarrow> (let (rid, d3) = store_state k state d2 in (Inr rid, d3)))
      else (let (rid, d3) = store_state k state d in (Inr rid, d3)))"

text \<open>
  The handler of \<^verbatim>\<open>BrokenBarrierError\<close> in \<^verbatim>\<open>_wait\<close> (lines 108 to 117), in its two
  steps. First \<^verbatim>\<open>self._barrier.broken\<close> is read, outside the lock: the exception is
  raised again when the current barrier is broken. Then, under the lock, the rendezvous
  id is read again and the state saved for the key is compared with the caller's.
\<close>

definition barrier_broken :: "ElasticDriver \<Rightarrow> error + bool" where
  "barrier_broken d =
     (case barrier (worker_registry d) of
        None \<Rightarrow> Inl AttributeError
      | Some r \<Rightarrow>
         (case lookup (store d) r of
            None \<Rightarrow> Inl AttributeError
          | Some b \<Rightarrow> Inr (broken b)))"

definition wait_resnapshot :: "key \<Rightarrow> wstate \<Rightarrow> WorkerStateRegistry \<Rightarrow> error + int" where
  "wait_resnapshot k state reg =
     (let rendezvous = rendezvous_id reg;
          saved_state = (case states reg k of None \<Rightarrow> state | Some s \<Rightarrow> s)
      in if saved_state \<noteq> state then Inl (StateOverridden state saved_state)
         else Inr rendezvous)"

subsection \<open>Results\<close>

definition Results_init :: Results where
  "Results_init = \<lparr>entries = Map.empty, worker_threads = []\<rparr>"

definition expect :: "SlotInfo \<Rightarrow> Results \<Rightarrow> Results" where
  "expect worker_thread r = r\<lparr>worker_threads := worker_threads r @ [worker_thread]\<rparr>"

text \<open>\<^verbatim>\<open>add_result\<close>: the first value written under a key stays.\<close>

definition add_result :: "string \<Rightarrow> int \<times> int \<Rightarrow> Results \<Rightarrow> Results" where
  "add_result k v r =
     (if k \<in> dom (entries r) then r else r\<lparr>entries := (entries r)(k \<mapsto> v)\<rparr>)"

subsection \<open>DiscoveredHosts and Timeout\<close>

text \<open>
  Modelled from the spec: the methods of \<^verbatim>\<open>DiscoveredHosts\<close> the driver calls. The
  spec gives \<^verbatim>\<open>count_available_slots\<close> as the sum of the slots of the available hosts
  that are not blacklisted, \<^verbatim>\<open>filter_available_hosts\<close> as keeping, in order, the
  entries that are available and not blacklisted, and \<^verbatim>\<open>blacklist\<close> as idempotent.
  \<^verbatim>\<open>count_blacklisted_slots\<close>, which the spec does not describe, is the sum of the
  slots of the reported hosts that are blacklisted. \<open>update_available_hosts\<close> takes
  what the discovery source reports.
\<close>

definition is_blacklisted :: "DiscoveredHosts \<Rightarrow> host \<Rightarrow> bool" where
  "is_blacklisted dh h = (h \<in> blacklisted_hosts dh)"

definition blacklist :: "host \<Rightarrow> DiscoveredHosts \<Rightarrow> DiscoveredHosts" where
  "blacklist h dh = dh\<lparr>blacklisted_hosts := insert h (blacklisted_hosts dh)\<rparr>"

definition get_available_hosts :: "DiscoveredHosts \<Rightarrow> host list" where
  "get_available_hosts dh =
     filter (\<lambda>h. \<not> is_blacklisted dh h) (map fst (available_slots dh))"

definition get_slots :: "DiscoveredHosts \<Rightarrow> host \<Rightarrow> int" where
  "get_slots dh h = (case map_of (available_slots dh) h of None \<Rightarrow> 0 | Some n \<Rightarrow> n)"

definition count_available_slots :: "DiscoveredHosts \<Rightarrow> int" where
  "count_available_slots dh =
     sum_list (map snd (filter (\<lambda>p. \<not> is_blacklisted dh (fst p)) (available_slots dh)))"

definition count_blacklisted_slots :: "DiscoveredHosts \<Rightarrow> int" where
  "count_blacklisted_slots dh =
     sum_list (map snd (filter (\<lambda>p. is_blacklisted dh (fst p)) (available_slots dh)))"

definition filter_available_hosts :: "DiscoveredHosts \<Rightarrow> host list \<Rightarrow> host list" where
  "filter_available_hosts dh hs = filter (\<lambda>h. h \<in> set (get_available_hosts dh)) hs"

definition update_available_hosts ::
  "(host \<times> int) list \<Rightarrow> DiscoveredHosts \<Rightarrow> DiscoveredHosts" where
  "update_available_hosts found dh = dh\<lparr>available_slots := found\<rparr>"

text \<open>
  Modelled from the spec: \<^verbatim>\<open>timeout.Timeout\<close> of horovod.run.common.util, which is not
  among the sources. By the spec the wait fails once it exceeds the start timeout: the
  object remembers the clock reading at its creation plus the timeout, and
  \<^verbatim>\<open>check_time_out_for\<close> raises when the clock is past it. Clock readings are integers.
\<close>

record Timeout =
  timeout_at :: int

definition Timeout_init :: "int \<Rightarrow> int \<Rightarrow> Timeout" where
  "Timeout_init tm now = \<lparr>timeout_at = now + tm\<rparr>"

definition timed_out :: "Timeout \<Rightarrow> int \<Rightarrow> bool" where
  "timed_out tmout now = (now > timeout_at tmout)"

subsection \<open>ElasticDriver\<close>



text \<open>
  \<^verbatim>\<open>stop\<close> sets the shutdown event (and joins the discovery thread); \<^verbatim>\<open>finished\<close>
  reads it.
\<close>

definition stop :: "ElasticDriver \<Rightarrow> ElasticDriver" where
  "stop d = d\<lparr>shutdown := True\<rparr>"

definition finished :: "ElasticDriver \<Rightarrow> bool" where
  "finished d = shutdown d"

definition has_available_slots :: "int \<Rightarrow> int \<Rightarrow> int option \<Rightarrow> bool" where
  "has_available_slots slots mn mx =
     (slots \<ge> mn \<and> (case mx of None \<Rightarrow> True | Some m \<Rightarrow> slots \<le> m))"

text \<open>
  The loop of \<^verbatim>\<open>wait_for_available_hosts\<close>. The thread sleeps on the condition; what
  it finds on each wake-up comes from outside: the hosts the discovery thread has
  reported meanwhile and the clock reading. The list of wake-ups is the environment of
  the call; when it ends with the condition still false the call never returns.
\<close>

fun wait_loop ::
  "Timeout \<Rightarrow> int \<Rightarrow> int option \<Rightarrow> DiscoveredHosts \<Rightarrow> ((host \<times> int) list \<times> int) list
    \<Rightarrow> unit outcome \<times> DiscoveredHosts" where
  "wait_loop tmout mn mx dh [] =
     (if has_available_slots (count_available_slots dh) mn mx then (Returns (), dh)
      else (Never, dh))"
| "wait_loop tmout mn mx dh ((found, now) # rest) =
     (if has_available_slots (count_available_slots dh) mn mx then (Returns (), dh)
      else if timed_out tmout now then (Raises StartTimeout, update_available_hosts found dh)
      else wait_loop tmout mn mx (update_available_hosts found dh) rest)"

text \<open>
  The environment of an activation: the clock reading when the \<^verbatim>\<open>Timeout\<close> is built
  and the wake-ups of the wait.
\<close>

record activation_env =
  clock :: int
  wakeups :: "((host \<times> int) list \<times> int) list"

definition wait_for_available_hosts ::
  "activation_env \<Rightarrow> int \<Rightarrow> int option \<Rightarrow> ElasticDriver \<Rightarrow> unit outcome \<times> ElasticDriver" where
  "wait_for_available_hosts env mn mx d =
     (let tmout = Timeout_init (start_timeout d) (clock env);
          (out, dh) = wait_loop tmout mn mx (discovered_hosts d) (wakeups env)
      in (out, d\<lparr>discovered_hosts := dh\<rparr>))"

text \<open>
  \<^verbatim>\<open>has_rank_assignment\<close>. A negative slot passes the length test, as in Python.
\<close>

definition has_rank_assignment :: "ElasticDriver \<Rightarrow> host \<Rightarrow> int \<Rightarrow> bool" where
  "has_rank_assignment d h slot =
     (if is_blacklisted (discovered_hosts d) h then False
      else (case host_assignments d h of
              None \<Rightarrow> False
            | Some sis \<Rightarrow> int (length sis) > slot))"

text \<open>
  \<^verbatim>\<open>_update_host_assignments\<close>. \<^verbatim>\<open>hosts.get_host_assignments\<close> is not among the
  sources: it is the parameter \<open>assign\<close>, from the hosts with their slots and the two
  bounds to the list of slots, or an error. The dictionary built from the list has a key
  for each host name in it, in the order of the list.
\<close>

type_synonym assigner = "(host \<times> int) list \<Rightarrow> int \<Rightarrow> int option \<Rightarrow> error + SlotInfo list"

definition group_by_host :: "SlotInfo list \<Rightarrow> (host \<rightharpoonup> SlotInfo list)" where
  "group_by_host sis =
     (\<lambda>h. if h \<in> hostname ` set sis then Some (filter (\<lambda>si. hostname si = h) sis) else None)"

definition update_host_assignments ::
  "assigner \<Rightarrow> ElasticDriver \<Rightarrow> unit outcome \<times> ElasticDriver" where
  "update_host_assignments assign d =
     (let host_list = map (\<lambda>h. (h, get_slots (discovered_hosts d) h)) (assigned_hosts d)
      in case assign host_list (min_np d) (max_np d) of
           Inl e \<Rightarrow> (Raises e, d)
         | Inr host_assignments_list \<Rightarrow>
             (Returns (),
              d\<lparr>host_assignments := group_by_host host_assignments_list,
                world_size := int (length host_assignments_list),
                rendezvous := host_assignments_list\<rparr>))"

definition update_assigned_hosts ::
  "assigner \<Rightarrow> ElasticDriver \<Rightarrow> host list outcome \<times> ElasticDriver" where
  "update_assigned_hosts assign d =
     (let kept = filter_available_hosts (discovered_hosts d) (assigned_hosts d);
          new_assigned_hosts =
            filter (\<lambda>h. h \<notin> set kept) (get_available_hosts (discovered_hosts d));
          (out, d1) = update_host_assignments assign
                        (d\<lparr>assigned_hosts := kept @ new_assigned_hosts\<rparr>)
      in case out of
           Returns _ \<Rightarrow> (Returns new_assigned_hosts, d1)
         | Raises e \<Rightarrow> (Raises e, d1)
         | Never \<Rightarrow> (Never, d1))"

text \<open>
  \<^verbatim>\<open>_start_worker_processes\<close>: one thread per slot of the host, each put on the queue
  of \<^verbatim>\<open>Results\<close>. Reading the \<^verbatim>\<open>defaultdict\<close> at a host without slots leaves an empty
  list there.
\<close>

definition start_worker_processes :: "host \<Rightarrow> ElasticDriver \<Rightarrow> ElasticDriver" where
  "start_worker_processes h d =
     (let sis = (case host_assignments d h of None \<Rightarrow> [] | Some l \<Rightarrow> l)
      in d\<lparr>host_assignments := (host_assignments d)(h \<mapsto> sis),
           results := fold expect sis (results d)\<rparr>)"

text \<open>
  \<^verbatim>\<open>_activate_hosts(min_np)\<close>: the wait is called with \<open>min_np\<close> alone, so its
  \<open>max_np\<close> is the default \<open>None\<close>.
\<close>

definition activate_hosts ::
  "assigner \<Rightarrow> activation_env \<Rightarrow> int \<Rightarrow> ElasticDriver \<Rightarrow> unit outcome \<times> ElasticDriver" where
  "activate_hosts assign env mn d =
     (let (out, d1) = wait_for_available_hosts env mn None
                        (logging (Wait_for_available_hosts mn) d)
      in case out of
           Raises e \<Rightarrow> (Raises e, d1)
         | Never \<Rightarrow> (Never, d1)
         | Returns _ \<Rightarrow>
            (let (out2, d2) = update_assigned_hosts assign d1
             in case out2 of
                  Raises e \<Rightarrow> (Raises e, d2)
                | Never \<Rightarrow> (Never, d2)
                | Returns new_assigned_hosts \<Rightarrow>
                    (Returns (),
                     fold (\<lambda>h d'. start_worker_processes h (logging (Start_worker_processes h) d'))
                       new_assigned_hosts (reset (world_size d2) d2))))"

definition start ::
  "assigner \<Rightarrow> activation_env \<Rightarrow> int \<Rightarrow> ElasticDriver \<Rightarrow> unit outcome \<times> ElasticDriver" where
  "start assign env np d = activate_hosts assign env np d"

text \<open>
  \<^verbatim>\<open>on_workers_recorded\<close>, the action of the barrier. The loop over the failed keys
  blacklists the host of each; the set of blacklisted hosts grows by those hosts,
  whatever the order of the loop.
\<close>

definition blacklist_failures :: "key set \<Rightarrow> DiscoveredHosts \<Rightarrow> DiscoveredHosts" where
  "blacklist_failures failures dh =
     dh\<lparr>blacklisted_hosts := blacklisted_hosts dh \<union> fst ` failures\<rparr>"

definition on_workers_recorded ::
  "assigner \<Rightarrow> activation_env \<Rightarrow> ElasticDriver \<Rightarrow> unit outcome \<times> ElasticDriver" where
  "on_workers_recorded assign env d0 =
     (let d = logging (All_workers_recorded (size_registry (worker_registry d0))) d0
      in if count (worker_registry d) SUCCESS > 0 then
           (Returns (), stop (logging (Success_stop (count (worker_registry d) SUCCESS)) d))
         else if count (worker_registry d) FAILURE = world_size d then
           (Returns (), stop (logging (Failure_stop (world_size d)) d))
         else
           (let failures = get (worker_registry d) FAILURE;
                d1 = d\<lparr>discovered_hosts := blacklist_failures failures (discovered_hosts d)\<rparr>;
                blacklisted_slots = count_blacklisted_slots (discovered_hosts d1)
            in if blacklisted_slots = world_size d1 then
                 (Returns (), stop (logging (Blacklisted_stop (world_size d1)) d1))
               else
                 (case activate_hosts assign env (min_np d1) d1 of
                    (Raises e, d2) \<Rightarrow> (Returns (), stop (logging Failed_to_activate d2))
                  | (out, d2) \<Rightarrow> (out, d2))))"

subsection \<open>Threads\<close>

text \<open>
  The methods that block run in worker threads: \<^verbatim>\<open>_handle_worker_exit\<close>, which
  reports through \<^verbatim>\<open>record_success\<close> or \<^verbatim>\<open>record_failure\<close>, the driver's
  \<^verbatim>\<open>record_ready\<close>, and direct calls of the registry's three \<^verbatim>\<open>record_*\<close> methods.
  A thread is at a point of its code, with its local variables; a step of a thread runs
  it to its next point: one test, one block under the lock, one entry into or exit from
  the barrier.

  \<open>cont\<close> is where \<^verbatim>\<open>_record_state\<close> returns to: a caller of the registry, who gets
  the rendezvous id, the driver's \<^verbatim>\<open>record_ready\<close>, which drops it, or line 340 of
  \<^verbatim>\<open>_handle_worker_exit\<close> for a slot, an exit code and a timestamp.
\<close>

datatype cont = Registry_call | Driver_record_ready | Exit_of SlotInfo int int

datatype pc =
    At_handle_worker_exit SlotInfo int int
  | At_record_state key wstate cont
  | At_lock key wstate cont
  | At_wait key wstate int cont
  | In_barrier bref key wstate int cont
  | In_action bref key wstate int cont
  | At_except key wstate int cont
  | At_relock key wstate cont
  | At_publish SlotInfo int int int
  | Done "int option"
  | Failed error

text \<open>
  The points, in the order of the list: line 329; line 86; line 91; line 106, with the
  local \<^verbatim>\<open>rendezvous_id\<close>; blocked inside \<^verbatim>\<open>wait()\<close> of the barrier object named;
  inside the action of that barrier, in an activation that never returns; line 109;
  line 113; line 340, with the rendezvous id returned; returned (with the value a
  caller of the registry receives); ended by an exception.
\<close>

record system =
  driver :: ElasticDriver
  threads :: "tid \<Rightarrow> pc"

definition record_ready :: "host \<Rightarrow> int \<Rightarrow> cont \<Rightarrow> pc" where
  "record_ready h slot = At_record_state (h, slot) READY"

definition record_success :: "host \<Rightarrow> int \<Rightarrow> cont \<Rightarrow> pc" where
  "record_success h slot = At_record_state (h, slot) SUCCESS"

definition record_failure :: "host \<Rightarrow> int \<Rightarrow> cont \<Rightarrow> pc" where
  "record_failure h slot = At_record_state (h, slot) FAILURE"

definition driver_record_ready :: "host \<Rightarrow> int \<Rightarrow> pc" where
  "driver_record_ready h slot = record_ready h slot Driver_record_ready"

definition return_to :: "cont \<Rightarrow> int \<Rightarrow> pc" where
  "return_to c rid =
     (case c of
        Registry_call \<Rightarrow> Done (Some rid)
      | Driver_record_ready \<Rightarrow> Done None
      | Exit_of slot_info exit_code timestamp \<Rightarrow> At_publish slot_info exit_code timestamp rid)"

text \<open>Lines 329 to 338 of \<^verbatim>\<open>_handle_worker_exit\<close>.\<close>

definition handle_worker_exit :: "SlotInfo \<Rightarrow> int \<Rightarrow> int \<Rightarrow> ElasticDriver \<Rightarrow> pc \<times> ElasticDriver" where
  "handle_worker_exit slot_info exit_code timestamp d =
     (if \<not> has_rank_assignment d (hostname slot_info) (local_rank slot_info) then
        (Done None, logging (Ignoring_exit (hostname slot_info) (local_rank slot_info)) d)
      else if exit_code = 0 then
        (record_success (hostname slot_info) (local_rank slot_info)
           (Exit_of slot_info exit_code timestamp), d)
      else
        (record_failure (hostname slot_info) (local_rank slot_info)
           (Exit_of slot_info exit_code timestamp), d))"

text \<open>Lines 86 to 88 of \<^verbatim>\<open>_record_state\<close>.\<close>

definition record_state_entry :: "key \<Rightarrow> wstate \<Rightarrow> cont \<Rightarrow> ElasticDriver \<Rightarrow> pc \<times> ElasticDriver" where
  "record_state_entry k state c d =
     (if finished d then
        (return_to c (rendezvous_id (worker_registry d)),
         logging (Driver_finished_ignoring k state) d)
      else (At_lock k state c, d))"

text \<open>Lines 91 to 100: the block under the lock, then into \<^verbatim>\<open>_wait\<close>.\<close>

definition record_state_lock :: "key \<Rightarrow> wstate \<Rightarrow> cont \<Rightarrow> ElasticDriver \<Rightarrow> pc \<times> ElasticDriver" where
  "record_state_lock k state c d =
     (case record_state_locked k state d of
        (Inl e, d1) \<Rightarrow> (Failed e, d1)
      | (Inr rid, d1) \<Rightarrow> (At_wait k state rid c, d1))"

text \<open>
  Line 106, the call \<^verbatim>\<open>self._barrier.wait()\<close>, on the barrier object the registry
  refers to at that moment. On a broken barrier it raises at once. The thread that
  completes the parties runs the action, \<^verbatim>\<open>on_workers_recorded\<close>, then releases the
  threads waiting on that object and returns; an action that raised would leave the
  barrier broken. Any other thread joins the waiting ones.
\<close>

definition barrier_abort :: "barrier \<Rightarrow> barrier" where
  "barrier_abort b =
     b\<lparr>interrupted := interrupted b \<union> set (waiting b), waiting := [], broken := True\<rparr>"

definition update_barrier :: "bref \<Rightarrow> (barrier \<Rightarrow> barrier) \<Rightarrow> ElasticDriver \<Rightarrow> ElasticDriver" where
  "update_barrier r f d =
     (case lookup (store d) r of
        None \<Rightarrow> d
      | Some b \<Rightarrow> d\<lparr>store := (store d)[r := f b]\<rparr>)"

definition barrier_wait ::
  "assigner \<Rightarrow> activation_env \<Rightarrow> tid \<Rightarrow> key \<Rightarrow> wstate \<Rightarrow> int \<Rightarrow> cont \<Rightarrow> ElasticDriver
    \<Rightarrow> pc \<times> ElasticDriver" where
  "barrier_wait assign env t k state rid c d =
     (case barrier (worker_registry d) of
        None \<Rightarrow> (Failed AttributeError, d)
      | Some r \<Rightarrow>
         (case lookup (store d) r of
            None \<Rightarrow> (Failed AttributeError, d)
          | Some b \<Rightarrow>
             if broken b then (At_except k state rid c, d)
             else if int (length (waiting b)) + 1 = parties b then
               (case on_workers_recorded assign env d of
                  (Returns _, d1) \<Rightarrow> (return_to c rid, update_barrier r barrier_release d1)
                | (Raises e, d1) \<Rightarrow> (Failed e, update_barrier r barrier_abort d1)
                | (Never, d1) \<Rightarrow> (In_action r k state rid c, d1))
             else
               (In_barrier r k state rid c,
                update_barrier r (\<lambda>b. b\<lparr>waiting := waiting b @ [t]\<rparr>) d)))"

text \<open>
  A thread inside \<^verbatim>\<open>wait()\<close>: once released it returns from \<^verbatim>\<open>_wait\<close> with its
  local rendezvous id (line 107); once interrupted it is in the handler (line 108);
  otherwise it stays blocked.
\<close>

definition barrier_wake ::
  "tid \<Rightarrow> bref \<Rightarrow> key \<Rightarrow> wstate \<Rightarrow> int \<Rightarrow> cont \<Rightarrow> ElasticDriver \<Rightarrow> pc \<times> ElasticDriver" where
  "barrier_wake t r k state rid c d =
     (case lookup (store d) r of
        None \<Rightarrow> (In_barrier r k state rid c, d)
      | Some b \<Rightarrow>
         if t \<in> passed b then
           (return_to c rid, update_barrier r (\<lambda>b. b\<lparr>passed := passed b - {t}\<rparr>) d)
         else if t \<in> interrupted b then
           (At_except k state rid c,
            update_barrier r (\<lambda>b. b\<lparr>interrupted := interrupted b - {t}\<rparr>) d)
         else (In_barrier r k state rid c, d))"

text \<open>Lines 109 to 111, then lines 113 to 117 and back to the head of the loop.\<close>

definition wait_except :: "key \<Rightarrow> wstate \<Rightarrow> int \<Rightarrow> cont \<Rightarrow> ElasticDriver \<Rightarrow> pc \<times> ElasticDriver" where
  "wait_except k state rid c d =
     (case barrier_broken d of
        Inl e \<Rightarrow> (Failed e, d)
      | Inr b \<Rightarrow> if b then (Failed BrokenBarrierError, d) else (At_relock k state c, d))"

definition wait_relock :: "key \<Rightarrow> wstate \<Rightarrow> cont \<Rightarrow> ElasticDriver \<Rightarrow> pc \<times> ElasticDriver" where
  "wait_relock k state c d =
     (case wait_resnapshot k state (worker_registry d) of
        Inl e \<Rightarrow> (Failed e, d)
      | Inr rid \<Rightarrow> (At_wait k state rid c, d))"

text \<open>
  Lines 340 to 344. The key of the result is \<^verbatim>\<open>'{}[{}]'.format(hostname, local_rank)\<close>,
  with the integer in decimal.
\<close>

definition digit :: "nat \<Rightarrow> char" where
  "digit n = ''0123456789'' ! n"

function str_nat :: "nat \<Rightarrow> string" where
  "str_nat n = (if n < 10 then [digit n] else str_nat (n div 10) @ [digit (n mod 10)])"
  by pat_completeness auto
termination
  by (relation "measure id") auto

declare str_nat.simps [simp del]

definition str_int :: "int \<Rightarrow> string" where
  "str_int i = (if i < 0 then ''-'' @ str_nat (nat (- i)) else str_nat (nat i))"

definition result_name :: "host \<Rightarrow> int \<Rightarrow> string" where
  "result_name h slot = h @ ''['' @ str_int slot @ '']''"

definition publish :: "SlotInfo \<Rightarrow> int \<Rightarrow> int \<Rightarrow> int \<Rightarrow> ElasticDriver \<Rightarrow> pc \<times> ElasticDriver" where
  "publish slot_info exit_code timestamp rid d =
     (if finished d \<and> last_rendezvous (worker_registry d) = rid then
        (let d1 = logging (Adding_results (hostname slot_info) (local_rank slot_info)
                             exit_code timestamp) d;
             name = result_name (hostname slot_info) (local_rank slot_info)
         in (Done None, d1\<lparr>results := add_result name (exit_code, timestamp) (results d1)\<rparr>))
      else (Done None, d))"

text \<open>
  One step of thread \<open>t\<close>. The assigner and the environment of an activation matter
  only to the step that runs the action.
\<close>

definition thread_step ::
  "assigner \<Rightarrow> activation_env \<Rightarrow> tid \<Rightarrow> pc \<Rightarrow> ElasticDriver \<Rightarrow> pc \<times> ElasticDriver" where
  "thread_step assign env t p d =
     (case p of
        At_handle_worker_exit slot_info exit_code timestamp \<Rightarrow>
          handle_worker_exit slot_info exit_code timestamp d
      | At_record_state k state c \<Rightarrow> record_state_entry k state c d
      | At_lock k state c \<Rightarrow> record_state_lock k state c d
      | At_wait k state rid c \<Rightarrow> barrier_wait assign env t k state rid c d
      | In_barrier r k state rid c \<Rightarrow> barrier_wake t r k state rid c d
      | In_action r k state rid c \<Rightarrow> (p, d)
      | At_except k state rid c \<Rightarrow> wait_except k state rid c d
      | At_relock k state c \<Rightarrow> wait_relock k state c d
      | At_publish slot_info exit_code timestamp rid \<Rightarrow>
          publish slot_info exit_code timestamp rid d
      | Done v \<Rightarrow> (p, d)
      | Failed e \<Rightarrow> (p, d))"

definition step :: "assigner \<Rightarrow> activation_env \<Rightarrow> tid \<Rightarrow> system \<Rightarrow> system" where
  "step assign env t s =
     (let (p, d) = thread_step assign env t (threads s t) (driver s)
      in \<lparr>driver = d, threads = (threads s)(t := p)\<rparr>)"

text \<open>A schedule names, step by step, the thread that runs and what an action finds.\<close>

fun run :: "assigner \<Rightarrow> (tid \<times> activation_env) list \<Rightarrow> system \<Rightarrow> system" where
  "run assign [] s = s"
| "run assign ((t, env) # sched) s = run assign sched (step assign env t s)"

subsection \<open>The assigner\<close>

text \<open>
  Modelled from the spec: \<^verbatim>\<open>get_host_assignments\<close> of horovod.run.common.util.hosts,
  which is not among the sources. By the spec it is a pure function from the ordered
  hosts and the two bounds to an ordered list of slots with a dense global ranking; it
  fails with \<open>InsufficientResources\<close> when the slots of the hosts total less than
  \<open>min_np\<close>, and with \<open>TooManyResources\<close> when they total more than \<open>max_np\<close>, if
  that is set. The driver's methods take the assigner as a parameter; this one is for
  running them on examples.
\<close>

fun slot_infos :: "(host \<times> int) list \<Rightarrow> (host \<times> int) list \<Rightarrow> int \<Rightarrow> SlotInfo list" where
  "slot_infos before [] tot = []"
| "slot_infos before ((h, n) # rest) tot =
     map (\<lambda>j. \<lparr>hostname = h,
                local_rank = int j,
                local_size = n,
                cross_rank = int (length (filter (\<lambda>p. snd p > int j) before)),
                cross_size = int (length (filter (\<lambda>p. snd p > int j) (before @ (h, n) # rest))),
                slot_rank = sum_list (map snd before) + int j,
                slot_size = tot\<rparr>) [0..<nat n]
     @ slot_infos (before @ [(h, n)]) rest tot"

definition get_host_assignments :: assigner where
  "get_host_assignments host_list mn mx =
     (let slots = sum_list (map snd host_list)
      in if slots < mn then Inl InsufficientResources
         else if (case mx of None \<Rightarrow> False | Some m \<Rightarrow> slots > m) then Inl TooManyResources
         else Inr (slot_infos [] host_list slots))"

subsection \<open>Example states\<close>

text \<open>
  A driver for two to four processes, before \<^verbatim>\<open>start\<close>, to which discovery has
  reported two hosts of two slots each; and the same driver after \<^verbatim>\<open>start(4, ...)\<close>:
  generation 1, a barrier of four parties, four worker threads.
\<close>

definition created :: ElasticDriver where
  "created =
     \<lparr>rendezvous = [],
      discovered_hosts = \<lparr>available_slots = [(''h1'', 2), (''h2'', 2)], blacklisted_hosts = {}\<rparr>,
      min_np = 2,
      max_np = Some 4,
      assigned_hosts = [],
      host_assignments = Map.empty,
      world_size = 0,
      start_timeout = 600,
      worker_registry = WorkerStateRegistry_init,
      results = Results_init,
      shutdown = False,
      store = [],
      log = []\<rparr>"

definition example_slots :: "SlotInfo list" where
  "example_slots = slot_infos [] [(''h1'', 2), (''h2'', 2)] 4"

definition running :: ElasticDriver where
  "running =
     \<lparr>rendezvous = example_slots,
      discovered_hosts = \<lparr>available_slots = [(''h1'', 2), (''h2'', 2)], blacklisted_hosts = {}\<rparr>,
      min_np = 2,
      max_np = Some 4,
      assigned_hosts = [''h1'', ''h2''],
      host_assignments = group_by_host example_slots,
      world_size = 4,
      start_timeout = 600,
      worker_registry =
        \<lparr>states = Map.empty, workers = (\<lambda>_. {}), barrier = Some 0, rendezvous_id = 1,
         rsize = 4\<rparr>,
      results = \<lparr>entries = Map.empty, worker_threads = example_slots\<rparr>,
      shutdown = False,
      store = [Barrier 4],
      log = [Wait_for_available_hosts 4, Reset_workers 4,
             Start_worker_processes ''h1'', Start_worker_processes ''h2'']\<rparr>"

text \<open>No wake-up is needed when the hosts are there: the wait does not sleep.\<close>

definition at_once :: activation_env where
  "at_once = \<lparr>clock = 0, wakeups = []\<rparr>"

text \<open>
  The generation of \<open>running\<close> with all four workers recorded: one has succeeded, three
  have failed.
\<close>

definition mixed :: ElasticDriver where
  "mixed = running\<lparr>worker_registry := (worker_registry running)
      \<lparr>states := [(''h1'', 0) \<mapsto> SUCCESS, (''h1'', 1) \<mapsto> FAILURE,
                  (''h2'', 0) \<mapsto> FAILURE, (''h2'', 1) \<mapsto> FAILURE],
       workers := (\<lambda>_. {})(SUCCESS := {(''h1'', 0)},
                             FAILURE := {(''h1'', 1), (''h2'', 0), (''h2'', 1)})\<rparr>\<rparr>"

subsection \<open>Sequences of operations\<close>

text \<open>
  What can happen to a registry and its driver, one after the other: a step of a
  thread inside \<^verbatim>\<open>record_*\<close> or \<^verbatim>\<open>_handle_worker_exit\<close> (the step that completes a
  barrier runs the action), a call of \<^verbatim>\<open>reset\<close>, a call of \<^verbatim>\<open>start\<close>. The reads
  \<^verbatim>\<open>get\<close>, \<^verbatim>\<open>count\<close>, \<^verbatim>\<open>size\<close> and \<^verbatim>\<open>last_rendezvous\<close> change nothing.
\<close>

datatype operation =
    Thread_step tid activation_env
  | Call_reset int
  | Call_start int activation_env

fun perform :: "assigner \<Rightarrow> operation \<Rightarrow> system \<Rightarrow> system" where
  "perform assign (Thread_step t env) s = step assign env t s"
| "perform assign (Call_reset n) s = s\<lparr>driver := reset n (driver s)\<rparr>"
| "perform assign (Call_start np env) s = s\<lparr>driver := snd (start assign env np (driver s))\<rparr>"

fun perform_all :: "assigner \<Rightarrow> operation list \<Rightarrow> system \<Rightarrow> system" where
  "perform_all assign [] s = s"
| "perform_all assign (op # ops) s = perform_all assign ops (perform assign op s)"

text \<open>
  The number of calls of \<^verbatim>\<open>reset\<close> a log shows: \<^verbatim>\<open>reset\<close> writes the message
  \<^verbatim>\<open>'reset workers: {}'\<close> and nothing else does.
\<close>

fun is_reset :: "log_event \<Rightarrow> bool" where
  "is_reset (Reset_workers n) = True"
| "is_reset e = False"

definition resets :: "log_event list \<Rightarrow> nat" where
  "resets l = length (filter is_reset l)"

text \<open>
  \<open>offset\<close> is what the rendezvous id is ahead of the resets logged; \<open>keeps d d'\<close> says
  that from \<open>d\<close> to \<open>d'\<close> the rendezvous id has moved by the resets logged in between.
\<close>

definition offset :: "ElasticDriver \<Rightarrow> int" where
  "offset d = rendezvous_id (worker_registry d) - int (resets (log d))"

definition keeps :: "ElasticDriver \<Rightarrow> ElasticDriver \<Rightarrow> bool" where
  "keeps d d' = (offset d' = offset d \<and> resets (log d) \<le> resets (log d'))"

text \<open>
  Systems: the driver before \<^verbatim>\<open>start\<close>, without threads at work; and the driver of
  \<open>mixed\<close> after it has stopped, with a late thread about to report a failure.
\<close>

definition idle :: system where
  "idle = \<lparr>driver = created, threads = (\<lambda>t. Done None)\<rparr>"

definition late :: system where
  "late = \<lparr>driver = stop mixed,
           threads = (\<lambda>t. Done None)(0 := record_failure ''h1'' 1 Registry_call)\<rparr>"

text \<open>
  The generation of \<open>running\<close> in which the worker of slot 0 of h1 has reported READY
  and waits in the barrier, as thread 1, while thread 0 reports FAILURE for the same
  slot and is about to take the lock.
\<close>

definition rereporting :: system where
  "rereporting =
     \<lparr>driver = running
        \<lparr>worker_registry := (worker_registry running)
           \<lparr>states := [(''h1'', 0) \<mapsto> READY],
            workers := (\<lambda>_. {})(READY := {(''h1'', 0)})\<rparr>,
         store := [(Barrier 4)\<lparr>waiting := [1]\<rparr>]\<rparr>,
      threads = (\<lambda>t. Done None)
        (0 := At_lock (''h1'', 0) FAILURE Registry_call,
         1 := In_barrier 0 (''h1'', 0) READY 1 Registry_call)\<rparr>"

text \<open>
  \<open>woken\<close> is \<open>rereporting\<close> after the step of thread 0: thread 1 has been interrupted.
  \<open>aborted\<close> has the barrier broken for good and thread 1 in the handler.
\<close>

definition woken :: system where
  "woken = step get_host_assignments at_once 0 rereporting"

definition aborted :: system where
  "aborted =
     \<lparr>driver = (driver rereporting)\<lparr>store := [(Barrier 4)\<lparr>broken := True\<rparr>]\<rparr>,
      threads = (\<lambda>t. Done None)(1 := At_except (''h1'', 0) READY 1 Registry_call)\<rparr>"


text \<open>
  The generation of \<open>running\<close> after discovery has reported a third host: the workers
  of slot 0 of h1 and of h2 have failed, the two others are ready.
\<close>

definition grown :: ElasticDriver where
  "grown = running
     \<lparr>discovered_hosts :=
        \<lparr>available_slots = [(''h1'', 2), (''h2'', 2), (''h3'', 2)], blacklisted_hosts = {}\<rparr>,
      worker_registry := (worker_registry running)
        \<lparr>states := [(''h1'', 0) \<mapsto> FAILURE, (''h1'', 1) \<mapsto> READY,
                    (''h2'', 0) \<mapsto> FAILURE, (''h2'', 1) \<mapsto> READY],
         workers := (\<lambda>_. {})(FAILURE := {(''h1'', 0), (''h2'', 0)},
                               READY := {(''h1'', 1), (''h2'', 1)})\<rparr>\<rparr>"

text \<open>The messages logged from \<open>d\<close> to \<open>d'\<close>.\<close>

definition logged :: "ElasticDriver \<Rightarrow> ElasticDriver \<Rightarrow> log_event list" where
  "logged d d' = drop (length (log d)) (log d')"




subsection \<open>A barrier cycle\<close>

text \<open>
  The runs of the action a log shows: \<^verbatim>\<open>on_workers_recorded\<close> begins with the message
  \<^verbatim>\<open>'all {} workers recorded'\<close> and nothing else writes it.
\<close>

fun is_action :: "log_event \<Rightarrow> bool" where
  "is_action (All_workers_recorded n) = True"
| "is_action e = False"

definition actions :: "log_event list \<Rightarrow> nat" where
  "actions l = length (filter is_action l)"

text \<open>
  The beginning of a cycle of \<open>n\<close> callers: the registry has just been reset to size \<open>n\<close>
  on a driver \<open>d\<close> that is not finished, and the threads \<open>0\<close> to \<open>n - 1\<close> are each at the
  head of a \<open>record_*\<close> call of the registry, thread \<open>t\<close> for the key \<open>keys t\<close> and the
  state \<open>sts t\<close>, the keys all different. No other thread runs.
\<close>

definition cycle_start ::
  "nat \<Rightarrow> (tid \<Rightarrow> key) \<Rightarrow> (tid \<Rightarrow> wstate) \<Rightarrow> ElasticDriver \<Rightarrow> system \<Rightarrow> bool" where
  "cycle_start n keys sts d s =
     (driver s = reset (int n) d \<and> \<not> finished d \<and> inj_on keys {..<n} \<and>
      (\<forall>t. threads s t =
             (if t < n then At_record_state (keys t) (sts t) Registry_call else Done None)))"

text \<open>
  \<open>grows d d' k\<close>: from \<open>d\<close> to \<open>d'\<close> barrier objects have been added to the store, none
  changed, and the log shows \<open>k\<close> more runs of the action.
\<close>

definition grows :: "ElasticDriver \<Rightarrow> ElasticDriver \<Rightarrow> nat \<Rightarrow> bool" where
  "grows d d' k =
     ((\<exists>x. store d' = store d @ x) \<and> actions (log d') = actions (log d) + k)"

text \<open>
  The three phases of a cycle of \<open>n\<close> callers on the barrier object \<open>r\<close>, begun at the
  rendezvous id \<open>R\<close> with \<open>a\<close> runs of the action in the log. While the barrier fills, the
  callers are before the lock (their keys not yet recorded), at the wait or inside the
  barrier, and the threads inside are the waiting threads of the barrier. Once the last
  caller has run the action, the callers have returned \<open>R\<close> or are released inside the
  barrier. When the action does not return, its thread stays in it and the others stay
  inside the barrier.
\<close>

definition filling ::
  "nat \<Rightarrow> (tid \<Rightarrow> key) \<Rightarrow> (tid \<Rightarrow> wstate) \<Rightarrow> bref \<Rightarrow> int \<Rightarrow> nat \<Rightarrow> system \<Rightarrow> bool" where
  "filling n keys sts r R a s =
     (\<not> shutdown (driver s) \<and>
      barrier (worker_registry (driver s)) = Some r \<and>
      rendezvous_id (worker_registry (driver s)) = R \<and>
      r < length (store (driver s)) \<and>
      parties (store (driver s) ! r) = int n \<and>
      \<not> broken (store (driver s) ! r) \<and>
      passed (store (driver s) ! r) = {} \<and>
      interrupted (store (driver s) ! r) = {} \<and>
      distinct (waiting (store (driver s) ! r)) \<and>
      set (waiting (store (driver s) ! r)) =
        {t. t < n \<and> threads s t = In_barrier r (keys t) (sts t) R Registry_call} \<and>
      actions (log (driver s)) = a \<and>
      (\<forall>t. (t < n \<longrightarrow>
              ((threads s t = At_record_state (keys t) (sts t) Registry_call \<or>
                threads s t = At_lock (keys t) (sts t) Registry_call) \<and>
               keys t \<notin> dom (states (worker_registry (driver s)))) \<or>
              threads s t = At_wait (keys t) (sts t) R Registry_call \<or>
              threads s t = In_barrier r (keys t) (sts t) R Registry_call) \<and>
           (\<not> t < n \<longrightarrow> threads s t = Done None)))"

definition draining ::
  "nat \<Rightarrow> (tid \<Rightarrow> key) \<Rightarrow> (tid \<Rightarrow> wstate) \<Rightarrow> bref \<Rightarrow> int \<Rightarrow> nat \<Rightarrow> system \<Rightarrow> bool" where
  "draining n keys sts r R a s =
     (actions (log (driver s)) = a + 1 \<and>
      r < length (store (driver s)) \<and>
      (\<forall>t. (t < n \<longrightarrow>
              threads s t = Done (Some R) \<or>
              (threads s t = In_barrier r (keys t) (sts t) R Registry_call \<and>
               t \<in> passed (store (driver s) ! r))) \<and>
           (\<not> t < n \<longrightarrow> threads s t = Done None)))"

definition stuck ::
  "nat \<Rightarrow> (tid \<Rightarrow> key) \<Rightarrow> (tid \<Rightarrow> wstate) \<Rightarrow> bref \<Rightarrow> int \<Rightarrow> nat \<Rightarrow> system \<Rightarrow> bool" where
  "stuck n keys sts r R a s =
     (actions (log (driver s)) = a + 1 \<and>
      r < length (store (driver s)) \<and>
      passed (store (driver s) ! r) = {} \<and>
      interrupted (store (driver s) ! r) = {} \<and>
      (\<forall>t. (t < n \<longrightarrow>
              threads s t = In_action r (keys t) (sts t) R Registry_call \<or>
              threads s t = In_barrier r (keys t) (sts t) R Registry_call) \<and>
           (\<not> t < n \<longrightarrow> threads s t = Done None)))"

(*DEFS*)

section \<open>Properties\<close>

subsection \<open>The start timeout\<close>



subsection \<open>The action of the barrier\<close>

lemma count_mixed:
  "count (worker_registry mixed) SUCCESS = 1" "count (worker_registry mixed) FAILURE = 3"
  by (simp_all add: mixed_def count_def)

text \<open>
  C3. When the set of workers recorded as SUCCESS is not empty, \<open>on_workers_recorded\<close>
  logs, sets the shutdown event and returns: the driver is finished, the discovered
  hosts with their blacklist, the registry and the barriers are as before, and the log
  has grown by the two messages of that path, none of them that of an activation.
\<close>

theorem success_wins:
  assumes "count (worker_registry d) SUCCESS > 0"
  shows "on_workers_recorded assign env d =
           (Returns (),
            stop (logging (Success_stop (count (worker_registry d) SUCCESS))
                   (logging (All_workers_recorded (size_registry (worker_registry d))) d))) \<and>
    finished (snd (on_workers_recorded assign env d)) \<and>
    discovered_hosts (snd (on_workers_recorded assign env d)) = discovered_hosts d \<and>
    worker_registry (snd (on_workers_recorded assign env d)) = worker_registry d \<and>
    store (snd (on_workers_recorded assign env d)) = store d \<and>
    log (snd (on_workers_recorded assign env d)) =
           log d @ [All_workers_recorded (size_registry (worker_registry d)),
                    Success_stop (count (worker_registry d) SUCCESS)]"
  using assms
  by (simp add: on_workers_recorded_def logging_def stop_def finished_def Let_def)

theorem success_wins_witness:
  "count (worker_registry mixed) SUCCESS > 0 \<and> count (worker_registry mixed) FAILURE = 3 \<and>
   finished (snd (on_workers_recorded get_host_assignments at_once mixed)) \<and>
   discovered_hosts (snd (on_workers_recorded get_host_assignments at_once mixed)) =
     discovered_hosts mixed \<and>
   worker_registry (snd (on_workers_recorded get_host_assignments at_once mixed)) =
     worker_registry mixed"
  using success_wins [of mixed get_host_assignments at_once] count_mixed
  by (simp add: stop_def logging_def finished_def)

subsection \<open>The rendezvous id\<close>

lemma keeps_refl [simp]: "keeps d d"
  by (simp add: keeps_def)

lemma keeps_trans: "keeps a b \<Longrightarrow> keeps b c \<Longrightarrow> keeps a c"
  by (simp add: keeps_def)

lemma keeps_logging: "\<not> is_reset e \<Longrightarrow> keeps d (logging e d)"
  by (simp add: keeps_def offset_def logging_def resets_def)

lemma keeps_reset: "keeps d (reset n d)"
  by (simp add: keeps_def offset_def reset_def logging_def resets_def alloc_def Let_def)

lemma keeps_same:
  "log d' = log d \<Longrightarrow> rendezvous_id (worker_registry d') = rendezvous_id (worker_registry d)
    \<Longrightarrow> keeps d d'"
  by (simp add: keeps_def offset_def)

lemma keeps_record_state_locked: "keeps d (snd (record_state_locked k state d))"
  by (auto simp: record_state_locked_def reset_barrier_def store_state_def logging_def Let_def
        keeps_def offset_def resets_def split: option.splits sum.splits)

lemma keeps_wait_for: "keeps d (snd (wait_for_available_hosts env mn mx d))"
  by (simp add: wait_for_available_hosts_def Let_def split: prod.splits) (simp add: keeps_same)

lemma keeps_update_assigned: "keeps d (snd (update_assigned_hosts assign d))"
  by (auto simp: update_assigned_hosts_def update_host_assignments_def Let_def keeps_def
        offset_def split: prod.splits sum.splits outcome.splits)

lemma keeps_start_workers:
  "keeps d (fold (\<lambda>h d'. start_worker_processes h (logging (Start_worker_processes h) d')) hs d)"
proof (induction hs arbitrary: d)
  case Nil
  show ?case by simp
next
  case (Cons h hs)
  have "keeps d (start_worker_processes h (logging (Start_worker_processes h) d))"
    by (simp add: keeps_def offset_def start_worker_processes_def logging_def resets_def Let_def)
  then show ?case using Cons.IH keeps_trans by fastforce
qed

lemma keeps_activate: "keeps d (snd (activate_hosts assign env mn d))"
proof -
  let ?d0 = "logging (Wait_for_available_hosts mn) d"
  obtain o1 d1 where e1: "wait_for_available_hosts env mn None ?d0 = (o1, d1)"
    by (cases "wait_for_available_hosts env mn None ?d0")
  obtain o2 d2 where e2: "update_assigned_hosts assign d1 = (o2, d2)"
    by (cases "update_assigned_hosts assign d1")
  have "keeps d ?d0" by (simp add: keeps_logging)
  moreover have "keeps ?d0 d1" using keeps_wait_for [of ?d0 env mn None] e1 by simp
  ultimately have a: "keeps d d1" by (rule keeps_trans)
  have "keeps d1 d2" using keeps_update_assigned [of d1 assign] e2 by simp
  with a have b: "keeps d d2" by (rule keeps_trans)
  have c: "keeps d (fold (\<lambda>h d'. start_worker_processes h (logging (Start_worker_processes h) d'))
             hs (reset n d2))" for hs n
    using b keeps_reset keeps_start_workers keeps_trans by blast
  show ?thesis
    using a b c e1 e2
    by (simp add: activate_hosts_def split: outcome.splits)
qed

lemma keeps_on_workers_recorded: "keeps d (snd (on_workers_recorded assign env d))"
proof -
  let ?d = "logging (All_workers_recorded (size_registry (worker_registry d))) d"
  let ?d1 = "?d\<lparr>discovered_hosts := blacklist_failures (get (worker_registry ?d) FAILURE)
                 (discovered_hosts ?d)\<rparr>"
  obtain o2 d2 where e: "activate_hosts assign env (min_np ?d1) ?d1 = (o2, d2)"
    by (cases "activate_hosts assign env (min_np ?d1) ?d1")
  have l: "keeps d ?d" by (simp add: keeps_logging)
  have s: "keeps x (stop (logging ev x))" if "\<not> is_reset ev" for x ev
    using that by (simp add: keeps_def offset_def stop_def logging_def resets_def)
  have l1: "keeps d ?d1" using l by (simp add: keeps_def offset_def)
  have "keeps ?d1 d2" using keeps_activate [of ?d1 assign env "min_np ?d1"] e by simp
  with l1 have l2: "keeps d d2" by (rule keeps_trans)
  have l3: "keeps d (stop (logging Failed_to_activate d2))"
    using l2 s [of Failed_to_activate d2] keeps_trans by fastforce
  have l4: "keeps d (stop (logging ev ?d))" if "\<not> is_reset ev" for ev
    using l s [OF that, of ?d] keeps_trans by blast
  have l5: "keeps d (stop (logging ev ?d1))" if "\<not> is_reset ev" for ev
    using l1 s [OF that, of ?d1] keeps_trans by blast
  show ?thesis
    using l2 l3 l4 l5 e
    by (simp add: on_workers_recorded_def Let_def split: outcome.splits)
qed

lemma update_barrier_fields [simp]:
  "log (update_barrier r f d) = log d"
  "worker_registry (update_barrier r f d) = worker_registry d"
  "shutdown (update_barrier r f d) = shutdown d"
  "results (update_barrier r f d) = results d"
  "discovered_hosts (update_barrier r f d) = discovered_hosts d"
  "host_assignments (update_barrier r f d) = host_assignments d"
  "world_size (update_barrier r f d) = world_size d"
  by (simp_all add: update_barrier_def split: option.splits)

lemma keeps_update_barrier: "keeps d (update_barrier r f d)"
  by (simp add: update_barrier_def keeps_same split: option.splits)

lemma keeps_thread_step: "keeps d (snd (thread_step assign env t p d))"
proof (cases p)
  case (At_wait k state rid c)
  obtain o2 d2 where e: "on_workers_recorded assign env d = (o2, d2)"
    by (cases "on_workers_recorded assign env d")
  have "keeps d d2" using keeps_on_workers_recorded [of d assign env] e by simp
  then have "keeps d (update_barrier r f d2)" for r f
    using keeps_update_barrier keeps_trans by blast
  with \<open>keeps d d2\<close> show ?thesis
    using At_wait e
    by (simp add: thread_step_def barrier_wait_def keeps_update_barrier
          split: option.splits outcome.splits)
next
  case (At_lock k state c)
  then show ?thesis
    using keeps_record_state_locked [of d k state]
    by (cases "record_state_locked k state d")
       (auto simp: thread_step_def record_state_lock_def split: sum.splits)
qed (simp_all add: thread_step_def handle_worker_exit_def record_state_entry_def
       barrier_wake_def wait_except_def wait_relock_def publish_def keeps_logging
       keeps_update_barrier keeps_def offset_def logging_def resets_def Let_def
       split: option.splits sum.splits)

lemma keeps_perform: "keeps (driver s) (driver (perform assign op s))"
proof (cases op)
  case (Thread_step t env)
  then show ?thesis
    using keeps_thread_step [of "driver s" assign env t "threads s t"]
    by (cases "thread_step assign env t (threads s t) (driver s)") (simp add: step_def)
next
  case (Call_reset n)
  then show ?thesis by (simp add: keeps_reset)
next
  case (Call_start np env)
  then show ?thesis by (simp add: start_def keeps_activate)
qed

lemma keeps_perform_all: "keeps (driver s) (driver (perform_all assign ops s))"
proof (induction ops arbitrary: s)
  case Nil
  show ?case by simp
next
  case (Cons op ops)
  show ?case using keeps_perform Cons.IH keeps_trans by fastforce
qed

text \<open>
  C7. After \<open>reset n\<close> the size is \<open>n\<close>, the state map and the sets of workers are
  empty and the rendezvous id is one more than before. Over any sequence of steps of
  threads, calls of \<open>reset\<close> and calls of \<open>start\<close>, the rendezvous id grows by the
  number of resets logged meanwhile, and by nothing else: it never decreases.
\<close>

theorem rendezvous_id_moves_with_reset:
  "size_registry (worker_registry (reset n d)) = n \<and>
   states (worker_registry (reset n d)) = Map.empty \<and>
   (\<forall>state. get (worker_registry (reset n d)) state = {}) \<and>
   rendezvous_id (worker_registry (reset n d)) = rendezvous_id (worker_registry d) + 1 \<and>
   rendezvous_id (worker_registry (reset n d)) > rendezvous_id (worker_registry d) \<and>
   rendezvous_id (worker_registry (driver (perform_all assign ops s))) =
     rendezvous_id (worker_registry (driver s)) +
     int (resets (log (driver (perform_all assign ops s))) - resets (log (driver s))) \<and>
   rendezvous_id (worker_registry (driver s)) \<le>
     rendezvous_id (worker_registry (driver (perform_all assign ops s)))"
proof -
  have r: "worker_registry (reset n d) =
             \<lparr>states = Map.empty, workers = (\<lambda>_. {}), barrier = Some (length (store d)),
              rendezvous_id = rendezvous_id (worker_registry d) + 1, rsize = n\<rparr>"
    by (simp add: reset_def logging_def alloc_def Let_def)
  have k: "keeps (driver s) (driver (perform_all assign ops s))"
    by (rule keeps_perform_all)
  show ?thesis
    using k by (simp add: r size_registry_def get_def keeps_def offset_def)
qed

theorem rendezvous_id_moves_with_reset_witness:
  "rendezvous_id (worker_registry (driver (perform_all get_host_assignments
       [Call_reset 3, Thread_step 0 at_once, Call_reset 2] idle))) = 2 \<and>
   rendezvous_id (worker_registry (driver idle)) = 0 \<and>
   size_registry (worker_registry (reset 3 created)) = 3"
  using rendezvous_id_moves_with_reset [of 3 created get_host_assignments
          "[Call_reset 3, Thread_step 0 at_once, Call_reset 2]" idle]
  by (simp add: idle_def created_def WorkerStateRegistry_init_def step_def thread_step_def
        reset_def logging_def alloc_def resets_def Let_def)

subsection \<open>Reports to a finished driver\<close>

text \<open>
  C4. A thread at the head of \<open>record_ready\<close>, \<open>record_success\<close> or \<open>record_failure\<close>
  while the driver is finished returns in its next step, with the current rendezvous
  id: the caller of the registry receives that id, the thread is not inside a barrier,
  the registry (state map, sets of workers, barrier reference, rendezvous id), the
  barrier objects and the results are as before, and no other thread is touched.
\<close>

theorem finished_record_returns_at_once:
  assumes "finished (driver s)"
    and "threads s t \<in> {record_ready h slot c, record_success h slot c, record_failure h slot c}"
  shows "threads (step assign env t s) t =
           return_to c (rendezvous_id (worker_registry (driver s))) \<and>
         return_to Registry_call (rendezvous_id (worker_registry (driver s))) =
           Done (Some (rendezvous_id (worker_registry (driver s)))) \<and>
         (\<forall>r k state rid c'. threads (step assign env t s) t \<noteq> In_barrier r k state rid c') \<and>
         worker_registry (driver (step assign env t s)) = worker_registry (driver s) \<and>
         store (driver (step assign env t s)) = store (driver s) \<and>
         results (driver (step assign env t s)) = results (driver s) \<and>
         (\<forall>t'. t' \<noteq> t \<longrightarrow> threads (step assign env t s) t' = threads s t')"
  using assms
  by (auto simp: step_def thread_step_def record_state_entry_def record_ready_def
        record_success_def record_failure_def return_to_def logging_def split: cont.splits)

theorem finished_record_returns_at_once_witness:
  "finished (driver late) \<and>
   threads late 0 = record_failure ''h1'' 1 Registry_call \<and>
   threads (step get_host_assignments at_once 0 late) 0 = Done (Some 1) \<and>
   worker_registry (driver (step get_host_assignments at_once 0 late)) =
     worker_registry (driver late)"
  using finished_record_returns_at_once
          [of late 0 "''h1''" 1 Registry_call get_host_assignments at_once]
  by (simp add: late_def finished_def stop_def mixed_def running_def return_to_def)

subsection \<open>Reporting a key twice\<close>

lemma step_simps:
  "threads (step assign env t s) t = fst (thread_step assign env t (threads s t) (driver s))"
  "driver (step assign env t s) = snd (thread_step assign env t (threads s t) (driver s))"
  "t' \<noteq> t \<Longrightarrow> threads (step assign env t s) t' = threads s t'"
  by (simp_all add: step_def split: prod.splits)



subsection \<open>A broken barrier\<close>

text \<open>
  C6. A thread interrupted inside the barrier is next in the handler of
  \<open>BrokenBarrierError\<close>. There, when the barrier of the registry is broken, the thread
  ends with \<open>BrokenBarrierError\<close>; when it is not, the thread goes on to the lock, where
  it reads the rendezvous id again and returns to the wait with it, unless the state
  map holds for its key a state other than the one it reported: then, and only then, it
  ends with \<open>StateOverridden\<close>.
\<close>

theorem broken_barrier_handling:
  "(threads s1 t = In_barrier r k state rid c \<and> lookup (store (driver s1)) r = Some b \<and>
    t \<notin> passed b \<and> t \<in> interrupted b \<longrightarrow>
      threads (step assign env t s1) t = At_except k state rid c) \<and>
   (threads s2 t = At_except k state rid c \<and> barrier_broken (driver s2) = Inr True \<longrightarrow>
      threads (step assign env t s2) t = Failed BrokenBarrierError) \<and>
   (threads s2 t = At_except k state rid c \<and> barrier_broken (driver s2) = Inr False \<longrightarrow>
      threads (step assign env t s2) t = At_relock k state c \<and>
      driver (step assign env t s2) = driver s2) \<and>
   (threads s3 t = At_relock k state c \<longrightarrow>
      driver (step assign env t s3) = driver s3 \<and>
      ((\<exists>saved. threads (step assign env t s3) t = Failed (StateOverridden state saved)) \<longleftrightarrow>
       (\<exists>saved. states (worker_registry (driver s3)) k = Some saved \<and> saved \<noteq> state)) \<and>
      (\<forall>saved. states (worker_registry (driver s3)) k = Some saved \<and> saved \<noteq> state \<longrightarrow>
         threads (step assign env t s3) t = Failed (StateOverridden state saved)) \<and>
      (\<not> (\<exists>saved. states (worker_registry (driver s3)) k = Some saved \<and> saved \<noteq> state) \<longrightarrow>
         threads (step assign env t s3) t =
           At_wait k state (rendezvous_id (worker_registry (driver s3))) c))"
  by (auto simp: step_simps thread_step_def barrier_wake_def wait_except_def wait_relock_def
        wait_resnapshot_def Let_def split: option.splits)


lemma woken_eq:
  "threads woken 1 = In_barrier 0 (''h1'', 0) READY 1 Registry_call"
  "store (driver woken) = [(Barrier 4)\<lparr>interrupted := {1}\<rparr>]"
  "states (worker_registry (driver woken)) = [(''h1'', 0) \<mapsto> FAILURE]"
  "barrier (worker_registry (driver woken)) = Some 0"
  "rendezvous_id (worker_registry (driver woken)) = 1"
  by (simp_all add: woken_def rereporting_def running_def step_simps thread_step_def
        record_state_lock_def record_state_locked_def reset_barrier_def store_state_def
        logging_def lookup_def barrier_reset_def Barrier_def Let_def)

theorem broken_barrier_handling_witness:
  "threads woken 1 = In_barrier 0 (''h1'', 0) READY 1 Registry_call \<and>
   threads (step get_host_assignments at_once 1 woken) 1 =
     At_except (''h1'', 0) READY 1 Registry_call \<and>
   barrier_broken (driver (step get_host_assignments at_once 1 woken)) = Inr False \<and>
   threads (step get_host_assignments at_once 1 (step get_host_assignments at_once 1 woken)) 1 =
     At_relock (''h1'', 0) READY Registry_call \<and>
   threads (step get_host_assignments at_once 1
             (step get_host_assignments at_once 1 (step get_host_assignments at_once 1 woken))) 1 =
     Failed (StateOverridden READY FAILURE) \<and>
   barrier_broken (driver aborted) = Inr True \<and>
   threads (step get_host_assignments at_once 1 aborted) 1 = Failed BrokenBarrierError"
proof -
  let ?a = "step get_host_assignments at_once 1 woken"
  let ?b = "step get_host_assignments at_once 1 ?a"
  have d: "driver ?a = (driver woken)\<lparr>store := [Barrier 4]\<rparr>"
    using woken_eq
    by (simp add: step_simps thread_step_def barrier_wake_def update_barrier_def lookup_def
          Barrier_def split: if_splits)
  have 1: "threads ?a 1 = At_except (''h1'', 0) READY 1 Registry_call"
    using broken_barrier_handling
            [where ?s1.0 = woken and t = 1 and r = 0 and k = "(''h1'', 0)" and state = READY
               and rid = 1 and c = Registry_call and b = "(Barrier 4)\<lparr>interrupted := {1}\<rparr>"
               and assign = get_host_assignments and env = at_once]
      woken_eq
    by (simp add: Barrier_def lookup_def)
  have 2: "barrier_broken (driver ?a) = Inr False"
    using woken_eq d by (simp add: barrier_broken_def lookup_def Barrier_def)
  have 3: "threads ?b 1 = At_relock (''h1'', 0) READY Registry_call \<and> driver ?b = driver ?a"
    using broken_barrier_handling
            [where ?s2.0 = ?a and t = 1 and k = "(''h1'', 0)" and state = READY
               and rid = 1 and c = Registry_call
               and assign = get_host_assignments and env = at_once] 1 2
    by simp
  have 4: "threads (step get_host_assignments at_once 1 ?b) 1 =
             Failed (StateOverridden READY FAILURE)"
    using broken_barrier_handling
            [where ?s3.0 = ?b and t = 1 and k = "(''h1'', 0)" and state = READY
               and c = Registry_call
               and assign = get_host_assignments and env = at_once] 3 woken_eq d
    by simp
  have 5: "barrier_broken (driver aborted) = Inr True"
    by (simp add: aborted_def rereporting_def running_def barrier_broken_def lookup_def)
  have 6: "threads (step get_host_assignments at_once 1 aborted) 1 = Failed BrokenBarrierError"
    using broken_barrier_handling
            [where ?s2.0 = aborted and t = 1 and k = "(''h1'', 0)" and state = READY
               and rid = 1 and c = Registry_call
               and assign = get_host_assignments and env = at_once] 5
    by (simp add: aborted_def)
  show ?thesis using woken_eq 1 2 3 4 5 6 by simp
qed

subsection \<open>The exit of a worker\<close>







subsection \<open>Failures and the blacklist\<close>

lemma update_available_blacklisted [simp]:
  "blacklisted_hosts (update_available_hosts found dh) = blacklisted_hosts dh"
  by (simp add: update_available_hosts_def)

lemma wait_loop_blacklisted:
  "blacklisted_hosts (snd (wait_loop tmout mn mx dh ws)) = blacklisted_hosts dh"
proof (induction ws arbitrary: dh)
  case Nil
  show ?case by simp
next
  case (Cons w ws)
  show ?case using Cons.IH by (cases w) simp
qed

lemma wait_for_fields:
  "blacklisted_hosts (discovered_hosts (snd (wait_for_available_hosts env mn mx d))) =
     blacklisted_hosts (discovered_hosts d)"
  "log (snd (wait_for_available_hosts env mn mx d)) = log d"
  using wait_loop_blacklisted
    [of "Timeout_init (start_timeout d) (clock env)" mn mx "discovered_hosts d" "wakeups env"]
  by (cases "wait_loop (Timeout_init (start_timeout d) (clock env)) mn mx (discovered_hosts d)
               (wakeups env)";
      simp add: wait_for_available_hosts_def Let_def)+

lemma update_assigned_fields:
  "discovered_hosts (snd (update_assigned_hosts assign d)) = discovered_hosts d"
  "log (snd (update_assigned_hosts assign d)) = log d"
  by (auto simp: update_assigned_hosts_def update_host_assignments_def Let_def
        split: prod.splits sum.splits outcome.splits)

lemma start_workers_fields:
  "discovered_hosts
     (fold (\<lambda>h d'. start_worker_processes h (logging (Start_worker_processes h) d')) hs d) =
   discovered_hosts d"
  "log (fold (\<lambda>h d'. start_worker_processes h (logging (Start_worker_processes h) d')) hs d) =
   log d @ map Start_worker_processes hs"
  by (induction hs arbitrary: d)
     (simp_all add: start_worker_processes_def logging_def Let_def)

lemma reset_fields:
  "discovered_hosts (reset n d) = discovered_hosts d"
  "log (reset n d) = log d @ [Reset_workers n]"
  by (simp_all add: reset_def logging_def alloc_def Let_def)

lemma activate_fields:
  "blacklisted_hosts (discovered_hosts (snd (activate_hosts assign env mn d))) =
     blacklisted_hosts (discovered_hosts d)"
  "\<exists>rest. log (snd (activate_hosts assign env mn d)) =
            log d @ Wait_for_available_hosts mn # rest"
proof -
  let ?d0 = "logging (Wait_for_available_hosts mn) d"
  obtain o1 d1 where e1: "wait_for_available_hosts env mn None ?d0 = (o1, d1)"
    by (cases "wait_for_available_hosts env mn None ?d0")
  obtain o2 d2 where e2: "update_assigned_hosts assign d1 = (o2, d2)"
    by (cases "update_assigned_hosts assign d1")
  have a: "blacklisted_hosts (discovered_hosts d1) = blacklisted_hosts (discovered_hosts d)"
    "log d1 = log d @ [Wait_for_available_hosts mn]"
    using wait_for_fields [of env mn None ?d0] e1 by (simp_all add: logging_def)
  have b: "discovered_hosts d2 = discovered_hosts d1" "log d2 = log d1"
    using update_assigned_fields [of assign d1] e2 by simp_all
  show "blacklisted_hosts (discovered_hosts (snd (activate_hosts assign env mn d))) =
     blacklisted_hosts (discovered_hosts d)"
    using a b e1 e2
    by (simp add: activate_hosts_def start_workers_fields reset_fields split: outcome.splits)
  show "\<exists>rest. log (snd (activate_hosts assign env mn d)) =
            log d @ Wait_for_available_hosts mn # rest"
    using a b e1 e2
    by (simp add: activate_hosts_def start_workers_fields reset_fields split: outcome.splits)
qed

lemma count_grown:
  "count (worker_registry grown) SUCCESS = 0" "count (worker_registry grown) FAILURE = 2"
  "world_size grown = 4" "get (worker_registry grown) FAILURE = {(''h1'', 0), (''h2'', 0)}"
  "size_registry (worker_registry grown) = 4"
  by (simp_all add: grown_def running_def count_def get_def size_registry_def)

lemma blacklisted_grown:
  "count_blacklisted_slots
     (blacklist_failures {(''h1'', 0), (''h2'', 0)} (discovered_hosts grown)) = 4"
  "count_available_slots
     (blacklist_failures {(''h1'', 0), (''h2'', 0)} (discovered_hosts grown)) = 2"
  by (simp_all add: grown_def running_def count_blacklisted_slots_def count_available_slots_def
        blacklist_failures_def is_blacklisted_def)

lemma on_workers_recorded_grown:
  "on_workers_recorded assign env grown =
     (Returns (),
      stop (logging (Blacklisted_stop 4)
        ((logging (All_workers_recorded 4) grown)
           \<lparr>discovered_hosts :=
              blacklist_failures {(''h1'', 0), (''h2'', 0)} (discovered_hosts grown)\<rparr>)))"
  using count_grown blacklisted_grown
  by (simp add: on_workers_recorded_def logging_def Let_def)

lemma on_workers_recorded_mixed:
  "on_workers_recorded assign env mixed =
     (Returns (), stop (logging (Success_stop 1) (logging (All_workers_recorded 4) mixed)))"
  using count_mixed
  by (simp add: on_workers_recorded_def logging_def Let_def size_registry_def)
     (simp add: mixed_def running_def)

text \<open>
  C1, as the code has it. When no worker is recorded as SUCCESS and the number of
  workers recorded as FAILURE is at least one and is not the world size,
  \<open>on_workers_recorded\<close> blacklists the host of every failed worker, and then it sets the
  shutdown event without entering an activation exactly when the slots counted as
  blacklisted equal the world size; otherwise it enters the activation for \<open>min_np\<close>.
\<close>

theorem failures_blacklisted_then_stop_or_activate:
  assumes "count (worker_registry d) SUCCESS = 0"
    and "count (worker_registry d) FAILURE \<ge> 1"
    and "count (worker_registry d) FAILURE \<noteq> world_size d"
  shows "blacklisted_hosts (discovered_hosts (snd (on_workers_recorded assign env d))) =
           blacklisted_hosts (discovered_hosts d) \<union> fst ` get (worker_registry d) FAILURE \<and>
         (\<forall>k \<in> get (worker_registry d) FAILURE.
            is_blacklisted (discovered_hosts (snd (on_workers_recorded assign env d))) (fst k)) \<and>
         (count_blacklisted_slots
            (blacklist_failures (get (worker_registry d) FAILURE) (discovered_hosts d)) =
            world_size d \<longrightarrow>
            on_workers_recorded assign env d =
              (Returns (),
               stop (logging (Blacklisted_stop (world_size d))
                 ((logging (All_workers_recorded (size_registry (worker_registry d))) d)
                    \<lparr>discovered_hosts :=
                       blacklist_failures (get (worker_registry d) FAILURE)
                         (discovered_hosts d)\<rparr>)))) \<and>
         ((finished (snd (on_workers_recorded assign env d)) \<and>
           Wait_for_available_hosts (min_np d) \<notin>
             set (logged d (snd (on_workers_recorded assign env d)))) \<longleftrightarrow>
          count_blacklisted_slots
            (blacklist_failures (get (worker_registry d) FAILURE) (discovered_hosts d)) =
            world_size d)"
proof -
  let ?d = "logging (All_workers_recorded (size_registry (worker_registry d))) d"
  let ?dh = "blacklist_failures (get (worker_registry d) FAILURE) (discovered_hosts d)"
  let ?d1 = "?d\<lparr>discovered_hosts := ?dh\<rparr>"
  obtain o2 d2 where e: "activate_hosts assign env (min_np d) ?d1 = (o2, d2)"
    by (cases "activate_hosts assign env (min_np d) ?d1")
  obtain rest where l: "log d2 = log ?d1 @ Wait_for_available_hosts (min_np d) # rest"
    using activate_fields(2) [of assign env "min_np d" ?d1] e by auto
  have b: "blacklisted_hosts (discovered_hosts d2) = blacklisted_hosts ?dh"
    using activate_fields(1) [of assign env "min_np d" ?d1] e by simp
  have bl: "blacklisted_hosts ?dh =
              blacklisted_hosts (discovered_hosts d) \<union> fst ` get (worker_registry d) FAILURE"
    by (simp add: blacklist_failures_def)
  show ?thesis
  proof (cases "count_blacklisted_slots ?dh = world_size d")
    case True
    then have r: "on_workers_recorded assign env d =
        (Returns (), stop (logging (Blacklisted_stop (world_size d)) ?d1))"
      using assms by (simp add: on_workers_recorded_def logging_def Let_def)
    show ?thesis
      using True bl
      by (auto simp: r stop_def logging_def finished_def logged_def is_blacklisted_def)
  next
    case False
    then have r: "on_workers_recorded assign env d =
        (case o2 of Raises e \<Rightarrow> (Returns (), stop (logging Failed_to_activate d2))
                  | _ \<Rightarrow> (o2, d2))"
      using assms e
      by (simp add: on_workers_recorded_def logging_def Let_def split: outcome.splits)
    have w: "Wait_for_available_hosts (min_np d) \<in> set (logged d (snd (on_workers_recorded assign env d)))"
      using l by (auto simp: r logged_def logging_def stop_def split: outcome.splits)
    have bb: "blacklisted_hosts (discovered_hosts (snd (on_workers_recorded assign env d))) =
                blacklisted_hosts ?dh"
      using b by (auto simp: r logging_def stop_def split: outcome.splits)
    show ?thesis
      using False w bb bl by (auto simp: is_blacklisted_def)
  qed
qed


theorem failures_blacklisted_then_stop_or_activate_witness:
  "count (worker_registry grown) SUCCESS = 0 \<and>
   count (worker_registry grown) FAILURE = 2 \<and>
   world_size grown = 4 \<and>
   blacklisted_hosts (discovered_hosts (snd (on_workers_recorded get_host_assignments at_once grown)))
     = {''h1'', ''h2''} \<and>
   finished (snd (on_workers_recorded get_host_assignments at_once grown)) \<and>
   Wait_for_available_hosts 2 \<notin>
     set (logged grown (snd (on_workers_recorded get_host_assignments at_once grown)))"
proof -
  let ?r = "snd (on_workers_recorded get_host_assignments at_once grown)"
  have p: "count (worker_registry grown) FAILURE \<ge> 1"
    "count (worker_registry grown) FAILURE \<noteq> world_size grown"
    using count_grown by simp_all
  note t = failures_blacklisted_then_stop_or_activate
             [of grown get_host_assignments at_once, OF count_grown(1) p]
  have g: "blacklisted_hosts (discovered_hosts grown) = {}" "min_np grown = 2"
    by (simp_all add: grown_def running_def)
  have a: "blacklisted_hosts (discovered_hosts ?r) = {''h1'', ''h2''}"
    using t g count_grown by simp
  have c: "finished ?r \<and> Wait_for_available_hosts 2 \<notin> set (logged grown ?r)"
    using t g count_grown blacklisted_grown
    by (simp add: finished_def stop_def logging_def logged_def)
  show ?thesis using a c count_grown by simp
qed

text \<open>
  C1 as stated fails twice. In \<open>mixed\<close> three of four workers have failed and one has
  succeeded: no host is blacklisted. In \<open>grown\<close> two of four workers have failed and
  none has succeeded: the driver shuts down without an activation, because the four
  blacklisted slots equal the world size, while the slots that are not blacklisted
  count two, not zero.
\<close>

theorem shutdown_with_free_slots_counterexample:
  "count (worker_registry mixed) FAILURE = 3 \<and> world_size mixed = 4 \<and>
   get (worker_registry mixed) FAILURE = {(''h1'', 1), (''h2'', 0), (''h2'', 1)} \<and>
   blacklisted_hosts (discovered_hosts (snd (on_workers_recorded get_host_assignments at_once mixed)))
     = {} \<and>
   count (worker_registry grown) SUCCESS = 0 \<and>
   count (worker_registry grown) FAILURE = 2 \<and>
   world_size grown = 4 \<and>
   finished (snd (on_workers_recorded get_host_assignments at_once grown)) \<and>
   logged grown (snd (on_workers_recorded get_host_assignments at_once grown)) =
     [All_workers_recorded 4, Blacklisted_stop 4] \<and>
   count_available_slots
     (discovered_hosts (snd (on_workers_recorded get_host_assignments at_once grown))) = 2"
  using count_mixed count_grown blacklisted_grown
  by (simp add: on_workers_recorded_grown on_workers_recorded_mixed stop_def logging_def
        finished_def logged_def)
     (simp add: mixed_def running_def get_def)

subsection \<open>The wait of the first activation\<close>

lemma update_available_twice [simp]:
  "update_available_hosts f (update_available_hosts g dh) = update_available_hosts f dh"
  by (simp add: update_available_hosts_def)













subsection \<open>One cycle of the barrier\<close>

lemma grows_refl [simp]: "grows d d 0"
  by (simp add: grows_def)

lemma grows_trans: "grows a b j \<Longrightarrow> grows b c k \<Longrightarrow> grows a c (j + k)"
  by (auto simp: grows_def)

lemma grows_then: "grows a b k \<Longrightarrow> grows b c 0 \<Longrightarrow> grows a c k"
  by (auto simp: grows_def)

lemma grows_same:
  "store d' = store d \<Longrightarrow> log d' = log d \<Longrightarrow> grows d d' 0"
  by (simp add: grows_def)

lemma grows_logging: "\<not> is_action e \<Longrightarrow> grows d (logging e d) 0"
  by (simp add: grows_def logging_def actions_def)

lemma grows_reset: "grows d (reset n d) 0"
  by (simp add: grows_def reset_def logging_def alloc_def actions_def Let_def)

lemma wait_for_store: "store (snd (wait_for_available_hosts env mn mx d)) = store d"
  by (cases "wait_loop (Timeout_init (start_timeout d) (clock env)) mn mx (discovered_hosts d)
               (wakeups env)")
     (simp add: wait_for_available_hosts_def Let_def)

lemma update_assigned_store: "store (snd (update_assigned_hosts assign d)) = store d"
  by (auto simp: update_assigned_hosts_def update_host_assignments_def Let_def
        split: prod.splits sum.splits outcome.splits)

lemma grows_start_workers:
  "grows d (fold (\<lambda>h d'. start_worker_processes h (logging (Start_worker_processes h) d')) hs d) 0"
proof -
  have "store (fold (\<lambda>h d'. start_worker_processes h (logging (Start_worker_processes h) d')) hs d)
          = store d"
    by (induction hs arbitrary: d) (simp_all add: start_worker_processes_def logging_def Let_def)
  then show ?thesis
    by (simp add: grows_def start_workers_fields actions_def filter_map comp_def)
qed

lemma grows_activate: "grows d (snd (activate_hosts assign env mn d)) 0"
proof -
  let ?d0 = "logging (Wait_for_available_hosts mn) d"
  obtain o1 d1 where e1: "wait_for_available_hosts env mn None ?d0 = (o1, d1)"
    by (cases "wait_for_available_hosts env mn None ?d0")
  obtain o2 d2 where e2: "update_assigned_hosts assign d1 = (o2, d2)"
    by (cases "update_assigned_hosts assign d1")
  have "grows d ?d0 0" by (simp add: grows_logging)
  moreover have "grows ?d0 d1 0"
    using wait_for_store [of env mn None ?d0] wait_for_fields(2) [of env mn None ?d0] e1
    by (simp add: grows_same)
  ultimately have a: "grows d d1 0" by (rule grows_then)
  have "grows d1 d2 0"
    using update_assigned_store [of assign d1] update_assigned_fields(2) [of assign d1] e2
    by (simp add: grows_same)
  with a have b: "grows d d2 0" by (rule grows_then)
  have c: "grows d (fold (\<lambda>h d'. start_worker_processes h (logging (Start_worker_processes h) d'))
             hs (reset n d2)) 0" for hs n
    using grows_then [OF grows_then [OF b grows_reset [of d2 n]]
            grows_start_workers [of "reset n d2" hs]] .
  show ?thesis
    using a b c e1 e2
    by (simp add: activate_hosts_def split: outcome.splits)
qed

lemma activate_fst:
  "fst (activate_hosts assign env mn d) = Never \<or>
   (\<exists>e. fst (activate_hosts assign env mn d) = Raises e) \<or>
   fst (activate_hosts assign env mn d) = Returns ()"
  by (cases "fst (activate_hosts assign env mn d)") auto

lemma on_workers_recorded_grows:
  "grows d (snd (on_workers_recorded assign env d)) 1"
  "fst (on_workers_recorded assign env d) \<noteq> Raises e"
proof -
  let ?d = "logging (All_workers_recorded (size_registry (worker_registry d))) d"
  let ?d1 = "?d\<lparr>discovered_hosts := blacklist_failures (get (worker_registry ?d) FAILURE)
                 (discovered_hosts ?d)\<rparr>"
  obtain o2 d2 where e: "activate_hosts assign env (min_np ?d1) ?d1 = (o2, d2)"
    by (cases "activate_hosts assign env (min_np ?d1) ?d1")
  have l: "grows d ?d 1" by (simp add: grows_def logging_def actions_def)
  have s: "grows x (stop (logging ev x)) 0" if "\<not> is_action ev" for x ev
    using that by (simp add: grows_def stop_def logging_def actions_def)
  have l1: "grows d ?d1 1" using l by (simp add: grows_def)
  have "grows ?d1 d2 0" using grows_activate [of ?d1 assign env "min_np ?d1"] e by simp
  with l1 have l2: "grows d d2 1" by (rule grows_then)
  have l3: "grows d (stop (logging Failed_to_activate d2)) 1"
    using l2 s [of Failed_to_activate d2] by (auto intro: grows_then)
  have l4: "grows d (stop (logging ev ?d)) 1" if "\<not> is_action ev" for ev
    using l s [OF that, of ?d] by (rule grows_then)
  have l5: "grows d (stop (logging ev ?d1)) 1" if "\<not> is_action ev" for ev
    using l1 s [OF that, of ?d1] by (rule grows_then)
  show "grows d (snd (on_workers_recorded assign env d)) 1"
    using l2 l3 l4 l5 e
    by (simp add: on_workers_recorded_def Let_def split: outcome.splits)
  show "fst (on_workers_recorded assign env d) \<noteq> Raises e"
    using e by (simp add: on_workers_recorded_def Let_def split: outcome.splits)
qed

lemma step_eq:
  "thread_step assign env t (threads s t) (driver s) = (p, d) \<Longrightarrow>
     step assign env t s = \<lparr>driver = d, threads = (threads s)(t := p)\<rparr>"
  by (simp add: step_def)

lemma step_inert:
  assumes "thread_step assign env t (threads s t) (driver s) = (threads s t, driver s)"
  shows "step assign env t s = s"
  using assms by (simp add: step_def)

lemma draining_step:
  assumes "draining n keys sts r R a s"
  shows "draining n keys sts r R a (step assign env t s)"
proof (cases "t < n \<and> threads s t \<noteq> Done (Some R)")
  case False
  then have "threads s t = Done (Some R) \<or> threads s t = Done None"
    using assms by (auto simp: draining_def)
  then have "step assign env t s = s"
    by (auto intro!: step_inert simp: thread_step_def)
  then show ?thesis using assms by simp
next
  case True
  then have p: "threads s t = In_barrier r (keys t) (sts t) R Registry_call"
    and m: "t \<in> passed (store (driver s) ! r)" and rl: "r < length (store (driver s))"
    using assms by (auto simp: draining_def)
  let ?d = "update_barrier r (\<lambda>b. b\<lparr>passed := passed b - {t}\<rparr>) (driver s)"
  have "thread_step assign env t (threads s t) (driver s) = (Done (Some R), ?d)"
    using p m rl by (simp add: thread_step_def barrier_wake_def lookup_def return_to_def)
  then have e: "step assign env t s = \<lparr>driver = ?d, threads = (threads s)(t := Done (Some R))\<rparr>"
    by (rule step_eq)
  have st: "store ?d = (store (driver s))[r := (store (driver s) ! r)\<lparr>passed := passed (store (driver s) ! r) - {t}\<rparr>]"
    using rl by (simp add: update_barrier_def lookup_def)
  show ?thesis
    using assms rl True by (auto simp: draining_def e st)
qed

lemma stuck_step:
  assumes "stuck n keys sts r R a s"
  shows "stuck n keys sts r R a (step assign env t s)"
proof -
  have "thread_step assign env t (threads s t) (driver s) = (threads s t, driver s)"
  proof (cases "t < n")
    case True
    then have "threads s t = In_action r (keys t) (sts t) R Registry_call \<or>
               threads s t = In_barrier r (keys t) (sts t) R Registry_call"
      using assms by (auto simp: stuck_def)
    then show ?thesis
      using assms by (auto simp: stuck_def thread_step_def barrier_wake_def lookup_def)
  next
    case False
    then have "threads s t = Done None" using assms by (auto simp: stuck_def)
    then show ?thesis by (simp add: thread_step_def)
  qed
  then have "step assign env t s = s" by (rule step_inert)
  then show ?thesis using assms by simp
qed


lemma filling_entry:
  assumes "filling n keys sts r R a s" "t < n"
    and "threads s t = At_record_state (keys t) (sts t) Registry_call"
  shows "filling n keys sts r R a (step assign env t s)"
proof -
  have "thread_step assign env t (threads s t) (driver s) =
          (At_lock (keys t) (sts t) Registry_call, driver s)"
    using assms by (simp add: thread_step_def record_state_entry_def finished_def filling_def)
  then have e: "step assign env t s =
      \<lparr>driver = driver s, threads = (threads s)(t := At_lock (keys t) (sts t) Registry_call)\<rparr>"
    by (rule step_eq)
  show ?thesis
    using assms by (auto simp: filling_def e)
qed

lemma filling_lock:
  assumes "filling n keys sts r R a s" "t < n" "inj_on keys {..<n}"
    and "threads s t = At_lock (keys t) (sts t) Registry_call"
  shows "filling n keys sts r R a (step assign env t s)"
proof -
  let ?reg = "worker_registry (driver s)"
  let ?d = "(driver s)\<lparr>log := log (driver s) @ [Record_state (keys t) (sts t)],
              worker_registry := ?reg
                \<lparr>states := (states ?reg)(keys t \<mapsto> sts t),
                 workers := (workers ?reg)(sts t := insert (keys t) (workers ?reg (sts t)))\<rparr>\<rparr>"
  have k: "keys t \<notin> dom (states ?reg)"
    using assms by (auto simp: filling_def)
  have "thread_step assign env t (threads s t) (driver s) =
          (At_wait (keys t) (sts t) R Registry_call, ?d)"
    using assms k
    by (simp add: thread_step_def record_state_lock_def record_state_locked_def
          store_state_def logging_def filling_def Let_def)
  then have e: "step assign env t s =
      \<lparr>driver = ?d, threads = (threads s)(t := At_wait (keys t) (sts t) R Registry_call)\<rparr>"
    by (rule step_eq)
  have o: "keys t' \<noteq> keys t" if "t' < n" "t' \<noteq> t" for t'
    using that assms(2,3) by (auto simp: inj_on_def)
  show ?thesis
    using assms(1,2,4) o by (auto simp: filling_def e actions_def)
qed

lemma filling_blocked:
  assumes "filling n keys sts r R a s" "t < n"
    and "threads s t = In_barrier r (keys t) (sts t) R Registry_call"
  shows "step assign env t s = s"
proof -
  have "thread_step assign env t (threads s t) (driver s) = (threads s t, driver s)"
    using assms by (simp add: thread_step_def barrier_wake_def lookup_def filling_def)
  then show ?thesis by (rule step_inert)
qed

lemma filling_join:
  assumes "filling n keys sts r R a s" "t < n"
    and "threads s t = At_wait (keys t) (sts t) R Registry_call"
    and "int (length (waiting (store (driver s) ! r))) + 1 \<noteq> int n"
  shows "filling n keys sts r R a (step assign env t s)"
proof -
  let ?b = "store (driver s) ! r"
  let ?d = "(driver s)\<lparr>store := (store (driver s))[r := ?b\<lparr>waiting := waiting ?b @ [t]\<rparr>]\<rparr>"
  have rl: "r < length (store (driver s))" using assms by (simp add: filling_def)
  have "thread_step assign env t (threads s t) (driver s) =
          (In_barrier r (keys t) (sts t) R Registry_call, ?d)"
    using assms
    by (simp add: thread_step_def barrier_wait_def update_barrier_def lookup_def filling_def)
  then have e: "step assign env t s =
      \<lparr>driver = ?d, threads = (threads s)(t := In_barrier r (keys t) (sts t) R Registry_call)\<rparr>"
    by (rule step_eq)
  have nt: "t \<notin> set (waiting ?b)" using assms by (auto simp: filling_def)
  show ?thesis
    using assms(1,2,3) nt rl by (auto simp: filling_def e)
qed

end
